theory Spec2Isabelle
  imports Main
begin

section \<open>Strings of the settings panel\<close>

text \<open>
  The panel of \<^verbatim>\<open>src/settings/ui/customIconPack.ts\<close> works on JavaScript strings.
  In the handlers a string is modelled as a \<open>char list\<close>; a \<open>char\<close> has eight bits
  and stands for the code unit of the same number, so this part covers the strings whose
  code units are below 256 (ASCII and the Latin-1 supplement). Both operations used by
  \<^verbatim>\<open>normalizeIconPackName\<close> map such strings to such strings. Strings of any code
  units are the subject of the next subsection.
\<close>

definition isUpperCase :: "char \<Rightarrow> bool" where
  \<comment> \<open>the code units below 256 that \<^verbatim>\<open>String.prototype.toLowerCase\<close> changes:
      A to Z, and the Latin-1 capitals 0xC0 to 0xDE without the multiplication sign 0xD7\<close>
  "isUpperCase c =
     (let n = (of_char c :: nat)
      in (65 \<le> n \<and> n \<le> 90) \<or> (192 \<le> n \<and> n \<le> 222 \<and> n \<noteq> 215))"

definition toLowerCaseChar :: "char \<Rightarrow> char" where
  "toLowerCaseChar c = (if isUpperCase c then char_of ((of_char c :: nat) + 32) else c)"

definition toLowerCase :: "string \<Rightarrow> string" where
  "toLowerCase s = map toLowerCaseChar s"

definition isWhiteSpace :: "char \<Rightarrow> bool" where
  \<comment> \<open>the code units below 256 matched by the regular expression class \<^verbatim>\<open>\s\<close>:
      TAB, LF, VT, FF, CR, SPACE and NO-BREAK SPACE\<close>
  "isWhiteSpace c =
     (let n = (of_char c :: nat)
      in (9 \<le> n \<and> n \<le> 13) \<or> n = 32 \<or> n = 160)"

definition replaceWhiteSpace :: "string \<Rightarrow> string" where
  \<comment> \<open>\<^verbatim>\<open>.replace(/\s/g, '-')\<close>: every match of the global pattern is replaced\<close>
  "replaceWhiteSpace s = map (\<lambda>c. if isWhiteSpace c then CHR ''-'' else c) s"

definition normalizeIconPackName :: "string \<Rightarrow> string" where
  "normalizeIconPackName v = replaceWhiteSpace (toLowerCase v)"

subsection \<open>Strings beyond Latin-1\<close>

text \<open>
  A JavaScript string is a sequence of UTF-16 code units, here natural numbers. The class
  \<^verbatim>\<open>\s\<close> is fixed by the language and matches single code units; it is written out in
  full. \<^verbatim>\<open>toLowerCase\<close> is the case conversion of the engine; its tables are not part of
  the source, it is not a map of single code units and it can change the length of a
  string, so \<open>normalizeIconPackNameUtf16\<close> takes it as a parameter. The definitions on
  \<open>char\<close> above are the restriction to strings of code units below 256, on which the
  language fixes \<^verbatim>\<open>toLowerCase\<close> to \<open>toLowerCaseUnit\<close>.
\<close>

definition isWhiteSpaceUnit :: "nat \<Rightarrow> bool" where
  \<comment> \<open>the code units matched by \<^verbatim>\<open>\s\<close>: TAB, LF, VT, FF, CR, SPACE, NO-BREAK SPACE,
      U+1680, U+2000 to U+200A, U+2028, U+2029, U+202F, U+205F, U+3000 and U+FEFF\<close>
  "isWhiteSpaceUnit u \<longleftrightarrow>
     (9 \<le> u \<and> u \<le> 13) \<or> u = 32 \<or> u = 160 \<or> u = 0x1680 \<or>
     (0x2000 \<le> u \<and> u \<le> 0x200A) \<or> u = 0x2028 \<or> u = 0x2029 \<or> u = 0x202F \<or>
     u = 0x205F \<or> u = 0x3000 \<or> u = 0xFEFF"

definition replaceWhiteSpaceUnits :: "nat list \<Rightarrow> nat list" where
  \<comment> \<open>\<^verbatim>\<open>.replace(/\s/g, '-')\<close>; 45 is the hyphen\<close>
  "replaceWhiteSpaceUnits v = map (\<lambda>u. if isWhiteSpaceUnit u then 45 else u) v"

definition normalizeIconPackNameUtf16 :: "(nat list \<Rightarrow> nat list) \<Rightarrow> nat list \<Rightarrow> nat list" where
  \<comment> \<open>\<^verbatim>\<open>normalizeIconPackName\<close> on code units; the first argument is \<^verbatim>\<open>toLowerCase\<close>\<close>
  "normalizeIconPackNameUtf16 toLowerCase16 v = replaceWhiteSpaceUnits (toLowerCase16 v)"


definition isUpperCaseUnit :: "nat \<Rightarrow> bool" where
  \<comment> \<open>the uppercase letters below 256, as in \<open>isUpperCase\<close>\<close>
  "isUpperCaseUnit u \<longleftrightarrow> (65 \<le> u \<and> u \<le> 90) \<or> (192 \<le> u \<and> u \<le> 222 \<and> u \<noteq> 215)"

definition toLowerCaseUnit :: "nat \<Rightarrow> nat" where
  "toLowerCaseUnit u = (if isUpperCaseUnit u then u + 32 else u)"



definition toLowerCaseExcerpt :: "nat list \<Rightarrow> nat list" where
  \<comment> \<open>Modelled from the Unicode character database, which the source does not hold: the
      lowercase mappings of the code units below 256, of U+0130 (to U+0069 U+0307) and of
      U+01C4 and U+01C5 (both to U+01C6). Other code units are left as they are, so this
      is \<^verbatim>\<open>toLowerCase\<close> only on strings of these code units.\<close>
  "toLowerCaseExcerpt v =
     concat (map (\<lambda>u. if u = 0x130 then [0x69, 0x307]
                       else if u = 0x1C4 \<or> u = 0x1C5 then [0x1C6]
                       else [toLowerCaseUnit u]) v)"

section \<open>The drag highlight\<close>

text \<open>
  One overlay node (\<^verbatim>\<open>dragOverElement\<close>) is shared by all rows. The state below
  holds the two fields of the class that \<^verbatim>\<open>highlight\<close> and \<^verbatim>\<open>unhighlight\<close>
  write, the part of the document they touch, and a clock in milliseconds for the timer.

  The document part follows the DOM: \<^verbatim>\<open>appendChild\<close> first removes the node from
  the parent it has, \<^verbatim>\<open>removeChild\<close> throws \<^verbatim>\<open>NotFoundError\<close> when the node is
  not a child of the receiver, \<^verbatim>\<open>classList.add\<close> and \<^verbatim>\<open>classList.remove\<close> never
  throw.
\<close>

datatype element = SettingEl nat
  \<comment> \<open>\<^verbatim>\<open>iconPackSetting.settingEl\<close> of the row with that index\<close>

datatype error = NotFoundError

record panel =
  dragTargetElement :: "element option"
    \<comment> \<open>\<open>None\<close> is \<^verbatim>\<open>undefined\<close>\<close>
  closeTimer :: "(nat \<times> element) option"
    \<comment> \<open>the pending timeout: the time it is due, and the \<^verbatim>\<open>el\<close> its callback closes over\<close>
  now :: nat
  overlayChildOf :: "element \<Rightarrow> bool"
    \<comment> \<open>\<^verbatim>\<open>dragOverElement\<close> is a child of that element\<close>
  hasDragoverClass :: "element \<Rightarrow> bool"
    \<comment> \<open>the class list of that element contains \<^verbatim>\<open>iconize-dragover\<close>\<close>

definition constructed :: panel where
  \<comment> \<open>after the constructor: a fresh, detached overlay, no owner, no timer\<close>
  "constructed =
     \<lparr>dragTargetElement = None, closeTimer = None, now = 0,
      overlayChildOf = (\<lambda>_. False), hasDragoverClass = (\<lambda>_. False)\<rparr>"

definition appendChild :: "element \<Rightarrow> panel \<Rightarrow> panel" where
  "appendChild el s = s\<lparr>overlayChildOf := (\<lambda>x. x = el)\<rparr>"

definition removeChild :: "element \<Rightarrow> panel \<Rightarrow> error + panel" where
  "removeChild el s =
     (if overlayChildOf s el
      then Inr (s\<lparr>overlayChildOf := (overlayChildOf s)(el := False)\<rparr>)
      else Inl NotFoundError)"

definition classListAdd :: "element \<Rightarrow> panel \<Rightarrow> panel" where
  "classListAdd el s = s\<lparr>hasDragoverClass := (hasDragoverClass s)(el := True)\<rparr>"

definition classListRemove :: "element \<Rightarrow> panel \<Rightarrow> panel" where
  "classListRemove el s = s\<lparr>hasDragoverClass := (hasDragoverClass s)(el := False)\<rparr>"

definition clearTimeout :: "panel \<Rightarrow> panel" where
  "clearTimeout s = s\<lparr>closeTimer := None\<rparr>"

definition setTimeout :: "element \<Rightarrow> nat \<Rightarrow> panel \<Rightarrow> panel" where
  \<comment> \<open>the callback is the one of \<^verbatim>\<open>unhighlight\<close>, given by the \<^verbatim>\<open>el\<close> it captured\<close>
  "setTimeout el delay s = s\<lparr>closeTimer := Some (now s + delay, el)\<rparr>"

definition highlight :: "element \<Rightarrow> panel \<Rightarrow> panel" where
  "highlight el s =
     (let s1 = clearTimeout s
      in if dragTargetElement s1 = None
         then (classListAdd el (appendChild el s1))\<lparr>dragTargetElement := Some el\<rparr>
         else s1)"

definition detach :: "element \<Rightarrow> panel \<Rightarrow> error + panel" where
  \<comment> \<open>the three statements that both \<^verbatim>\<open>unhighlight\<close> and its timer callback run on an
      element: \<^verbatim>\<open>removeChild(this.dragOverElement)\<close>, \<^verbatim>\<open>classList.remove\<close>,
      \<^verbatim>\<open>this.dragTargetElement = undefined\<close>\<close>
  "detach x s =
     (case removeChild x s of
        Inl e \<Rightarrow> Inl e
      | Inr s1 \<Rightarrow> Inr ((classListRemove x s1)\<lparr>dragTargetElement := None\<rparr>))"

definition unhighlight :: "element \<Rightarrow> element \<Rightarrow> panel \<Rightarrow> error + panel" where
  "unhighlight target el s =
     (case (case dragTargetElement s of
              None \<Rightarrow> Inr s
            | Some owner \<Rightarrow> if owner \<noteq> target then detach owner s else Inr s) of
        Inl e \<Rightarrow> Inl e
      | Inr s1 \<Rightarrow> Inr (setTimeout el 100 (clearTimeout s1)))"

definition closeTimerCallback :: "element \<Rightarrow> panel \<Rightarrow> error + panel" where
  "closeTimerCallback el s =
     (if dragTargetElement s \<noteq> None then detach el s else Inr s)"

text \<open>
  The listeners that \<^verbatim>\<open>display\<close> registers on a row: \<^verbatim>\<open>dragenter\<close> and
  \<^verbatim>\<open>dragover\<close> call \<^verbatim>\<open>highlight\<close> with the row, \<^verbatim>\<open>dragleave\<close> and \<^verbatim>\<open>drop\<close>
  call \<^verbatim>\<open>unhighlight\<close> with \<^verbatim>\<open>event.currentTarget\<close>, which is the row the listener
  is registered on, and the row. Time passes with \<open>Elapse\<close>; \<open>TimerFires\<close> is the
  event loop attempting the pending timeout, which runs only once it is due (it may
  run late, never early).
\<close>

datatype event =
    DragEnter element
  | DragOver element
  | DragLeave element
  | Drop element
  | Elapse nat
  | TimerFires

fun dispatch :: "event \<Rightarrow> panel \<Rightarrow> error + panel" where
  "dispatch (DragEnter r) s = Inr (highlight r s)"
| "dispatch (DragOver r) s = Inr (highlight r s)"
| "dispatch (DragLeave r) s = unhighlight r r s"
| "dispatch (Drop r) s = unhighlight r r s"
| "dispatch (Elapse d) s = Inr (s\<lparr>now := now s + d\<rparr>)"
| "dispatch TimerFires s =
     (case closeTimer s of
        None \<Rightarrow> Inr s
      | Some (due, el) \<Rightarrow>
          if due \<le> now s then closeTimerCallback el (s\<lparr>closeTimer := None\<rparr>) else Inr s)"

fun run :: "event list \<Rightarrow> panel \<Rightarrow> error + panel" where
  "run [] s = Inr s"
| "run (e # es) s = (case dispatch e s of Inl x \<Rightarrow> Inl x | Inr s1 \<Rightarrow> run es s1)"

definition consistent :: "panel \<Rightarrow> bool" where
  \<comment> \<open>the overlay and the class are on the owner and nowhere else, and a pending
      timeout was set for the owner\<close>
  "consistent s \<longleftrightarrow>
     (\<forall>x. overlayChildOf s x \<longleftrightarrow> dragTargetElement s = Some x) \<and>
     (\<forall>x. hasDragoverClass s x \<longleftrightarrow> dragTargetElement s = Some x) \<and>
     (\<forall>due el. closeTimer s = Some (due, el) \<longrightarrow>
        dragTargetElement s = None \<or> dragTargetElement s = Some el)"

definition isTimeEvent :: "event \<Rightarrow> bool" where
  "isTimeEvent e = (case e of Elapse d \<Rightarrow> True | TimerFires \<Rightarrow> True | _ \<Rightarrow> False)"

fun elapsed :: "event list \<Rightarrow> nat" where
  \<comment> \<open>the milliseconds that pass during the events\<close>
  "elapsed [] = 0"
| "elapsed (Elapse d # es) = d + elapsed es"
| "elapsed (e # es) = elapsed es"

section \<open>The click and drop handlers\<close>

text \<open>
  The handlers of \<^verbatim>\<open>display\<close> call the icon pack manager, the vault adapter and the
  widgets of the host application. None of these is defined in the source file, so the model
  takes them as a parameter: a host with a state of any type \<open>'h\<close>, whose calls return
  a new state and either a value or \<open>None\<close>, which stands for a rejected promise or a
  thrown exception. The handlers catch nothing, so a \<open>None\<close> ends the handler there.
  A handler yields what it returned, the calls and widget effects it made, in order, and
  the host state it left. One invocation of a handler is run from start to end.
\<close>

record File =
  name :: string
  type :: string

record 'h host =
  doesIconPackExist :: "string \<Rightarrow> 'h \<Rightarrow> bool option \<times> 'h"
  createCustomIconPackDirectory :: "string \<Rightarrow> 'h \<Rightarrow> unit option \<times> 'h"
  readFileSync :: "File \<Rightarrow> 'h \<Rightarrow> string option \<times> 'h"
  createFile :: "string \<Rightarrow> string \<Rightarrow> string \<Rightarrow> 'h \<Rightarrow> unit option \<times> 'h"
  addIconToIconPack :: "string \<Rightarrow> string \<Rightarrow> string \<Rightarrow> 'h \<Rightarrow> unit option \<times> 'h"
  getFilesInIconPackDirectory :: "string \<Rightarrow> 'h \<Rightarrow> string list option \<times> 'h"
  adapterRead :: "string \<Rightarrow> 'h \<Rightarrow> string option \<times> 'h"
  iconsLength :: "string \<Rightarrow> 'h \<Rightarrow> nat"
    \<comment> \<open>\<^verbatim>\<open>iconPack.icons.length\<close> of the pack with that name\<close>

datatype effect =
    Notice string
  | SetValue string
  | RefreshDisplay
  | SetDesc string
  | DoesIconPackExist string
  | CreateCustomIconPackDirectory string
  | ReadFileSync File
  | CreateFile string string string
  | AddIconToIconPack string string string
  | GetFilesInIconPackDirectory string
  | AdapterRead string

type_synonym ('h, 'a) handler = "'h \<Rightarrow> 'a option \<times> effect list \<times> 'h"

definition pure :: "'a \<Rightarrow> ('h, 'a) handler" where
  "pure a h = (Some a, [], h)"

definition andThen :: "('h, 'a) handler \<Rightarrow> ('a \<Rightarrow> ('h, 'b) handler) \<Rightarrow> ('h, 'b) handler" where
  \<comment> \<open>sequencing of two statements; a rejection in the first skips the second\<close>
  "andThen m f h =
     (case m h of
        (None, t1, h1) \<Rightarrow> (None, t1, h1)
      | (Some a, t1, h1) \<Rightarrow> (case f a h1 of (r, t2, h2) \<Rightarrow> (r, t1 @ t2, h2)))"

definition emit :: "effect \<Rightarrow> ('h, unit) handler" where
  \<comment> \<open>a widget effect: a notice, a description, the text field, the redraw\<close>
  "emit e h = (Some (), [e], h)"

definition invoke :: "effect \<Rightarrow> ('h \<Rightarrow> 'a option \<times> 'h) \<Rightarrow> ('h, 'a) handler" where
  \<comment> \<open>a call of the host, recorded and then made\<close>
  "invoke e call h = (case call h of (r, h1) \<Rightarrow> (r, [e], h1))"

definition observe :: "('h \<Rightarrow> 'a) \<Rightarrow> ('h, 'a) handler" where
  "observe f h = (Some (f h), [], h)"

fun numberToString :: "nat \<Rightarrow> string" where
  \<comment> \<open>a length in a template literal: its decimal digits\<close>
  "numberToString n =
     (if n < 10 then [char_of (48 + n)]
      else numberToString (n div 10) @ [char_of (48 + n mod 10)])"

declare numberToString.simps [simp del]

fun split :: "char \<Rightarrow> string \<Rightarrow> string list" where
  \<comment> \<open>\<^verbatim>\<open>String.prototype.split\<close> with a separator of one character\<close>
  "split sep [] = [[]]"
| "split sep (c # cs) =
     (if c = sep then [] # split sep cs
      else (case split sep cs of
              [] \<Rightarrow> [[c]]
            | w # ws \<Rightarrow> (c # w) # ws))"

definition pop :: "'a list \<Rightarrow> 'a option" where
  \<comment> \<open>\<^verbatim>\<open>Array.prototype.pop\<close>: the last element, \<^verbatim>\<open>undefined\<close> on an empty array\<close>
  "pop xs = (if xs = [] then None else Some (last xs))"

definition iconNameOf :: "string \<Rightarrow> string" where
  \<comment> \<open>\<^verbatim>\<open>fileName.split('/').pop()\<close>; \<open>split\<close> never returns an empty array
      (lemma \<open>split_not_Nil\<close>), so the second case does not arise\<close>
  "iconNameOf fileName = (case pop (split CHR ''/'' fileName) of Some n \<Rightarrow> n | None \<Rightarrow> [])"

definition onAddIconPackClick :: "'h host \<Rightarrow> string \<Rightarrow> ('h, unit) handler" where
  \<comment> \<open>the argument \<open>name'\<close> is the local \<^verbatim>\<open>name\<close>, which holds
      \<^verbatim>\<open>this.textComponent.getValue()\<close>\<close>
  "onAddIconPackClick H name' =
     (if length name' = 0 then pure ()
      else
        let normalizedName = normalizeIconPackName name'
        in andThen (invoke (DoesIconPackExist normalizedName)
                      (doesIconPackExist H normalizedName)) (\<lambda>exists.
             if exists then emit (Notice ''Icon pack already exists.'')
             else
               andThen (invoke (CreateCustomIconPackDirectory normalizedName)
                          (createCustomIconPackDirectory H normalizedName)) (\<lambda>_.
               andThen (emit (SetValue [])) (\<lambda>_.
               andThen (emit RefreshDisplay) (\<lambda>_.
               emit (Notice (''Icon pack '' @ name' @ '' ('' @ normalizedName
                               @ '') created.'')))))))"

fun addSelectedFiles :: "'h host \<Rightarrow> string \<Rightarrow> File list \<Rightarrow> ('h, unit) handler" where
  \<comment> \<open>the loop of the file picker's \<^verbatim>\<open>onchange\<close>\<close>
  "addSelectedFiles H pack [] = pure ()"
| "addSelectedFiles H pack (f # files) =
     andThen (invoke (ReadFileSync f) (readFileSync H f)) (\<lambda>content.
     andThen (invoke (CreateFile pack (name f) content)
                (createFile H pack (name f) content)) (\<lambda>_.
     andThen (invoke (AddIconToIconPack pack (name f) content)
                (addIconToIconPack H pack (name f) content)) (\<lambda>_.
     addSelectedFiles H pack files)))"

definition onFilesSelected :: "'h host \<Rightarrow> string \<Rightarrow> File list \<Rightarrow> ('h, unit) handler" where
  "onFilesSelected H pack files =
     andThen (addSelectedFiles H pack files) (\<lambda>_.
     andThen (emit (SetDesc (numberToString (length files) @ '' icons''))) (\<lambda>_.
     emit (Notice (numberToString (length files) @ '' icons added.''))))"

fun refreshFiles :: "'h host \<Rightarrow> string \<Rightarrow> string list \<Rightarrow> ('h, unit) handler" where
  \<comment> \<open>the loop of the refresh button\<close>
  "refreshFiles H pack [] = pure ()"
| "refreshFiles H pack (fileName # files) =
     andThen (invoke (AdapterRead fileName) (adapterRead H fileName)) (\<lambda>svg.
     let iconName = iconNameOf fileName
     in andThen (invoke (AddIconToIconPack pack iconName svg)
                   (addIconToIconPack H pack iconName svg)) (\<lambda>_.
        refreshFiles H pack files))"

definition onRefreshClick :: "'h host \<Rightarrow> string \<Rightarrow> ('h, unit) handler" where
  "onRefreshClick H pack =
     andThen (emit (SetDesc ''Loading icons...'')) (\<lambda>_.
     andThen (invoke (GetFilesInIconPackDirectory pack)
                (getFilesInIconPackDirectory H pack)) (\<lambda>files.
     andThen (refreshFiles H pack files) (\<lambda>_.
     andThen (emit (Notice (''Icon pack '' @ pack @ '' refreshed.''))) (\<lambda>_.
     emit (SetDesc (numberToString (length files) @ '' icons''))))))"

definition notSvgNotice :: "File \<Rightarrow> string" where
  "notSvgNotice f = ''File '' @ name f @ '' is not a SVG file.''"

fun dropFiles :: "'h host \<Rightarrow> string \<Rightarrow> File list \<Rightarrow> bool \<Rightarrow> ('h, bool) handler" where
  \<comment> \<open>the loop of the drop listener; the flag is \<^verbatim>\<open>successful\<close>\<close>
  "dropFiles H pack [] successful = pure successful"
| "dropFiles H pack (f # files) successful =
     (if type f \<noteq> ''image/svg+xml''
      then andThen (emit (Notice (notSvgNotice f))) (\<lambda>_.
           dropFiles H pack files successful)
      else
        andThen (invoke (ReadFileSync f) (readFileSync H f)) (\<lambda>content.
        andThen (invoke (CreateFile pack (name f) content)
                   (createFile H pack (name f) content)) (\<lambda>_.
        andThen (invoke (AddIconToIconPack pack (name f) content)
                   (addIconToIconPack H pack (name f) content)) (\<lambda>_.
        andThen (observe (iconsLength H pack)) (\<lambda>total.
        andThen (emit (SetDesc (''Total icons: '' @ numberToString total
                                  @ '' (added: '' @ name f @ '')''))) (\<lambda>_.
        dropFiles H pack files True))))))"

definition onDrop :: "'h host \<Rightarrow> string \<Rightarrow> File list \<Rightarrow> ('h, unit) handler" where
  "onDrop H pack files =
     andThen (dropFiles H pack files False) (\<lambda>successful.
     if successful then emit (Notice ''Icons successfully added.'') else pure ())"

subsection \<open>Reading a handler's effects\<close>

definition notices :: "effect list \<Rightarrow> string list" where
  "notices t = concat (map (\<lambda>e. case e of Notice m \<Rightarrow> [m] | _ \<Rightarrow> []) t)"

definition descriptions :: "effect list \<Rightarrow> string list" where
  "descriptions t = concat (map (\<lambda>e. case e of SetDesc d \<Rightarrow> [d] | _ \<Rightarrow> []) t)"

definition filesRead :: "effect list \<Rightarrow> File list" where
  "filesRead t = concat (map (\<lambda>e. case e of ReadFileSync f \<Rightarrow> [f] | _ \<Rightarrow> []) t)"

definition filesCreated :: "effect list \<Rightarrow> (string \<times> string \<times> string) list" where
  "filesCreated t =
     concat (map (\<lambda>e. case e of CreateFile p n c \<Rightarrow> [(p, n, c)] | _ \<Rightarrow> []) t)"

definition iconsAdded :: "effect list \<Rightarrow> (string \<times> string \<times> string) list" where
  "iconsAdded t =
     concat (map (\<lambda>e. case e of AddIconToIconPack p n c \<Rightarrow> [(p, n, c)] | _ \<Rightarrow> []) t)"

definition packAndName :: "string \<times> string \<times> string \<Rightarrow> string \<times> string" where
  "packAndName x = (fst x, fst (snd x))"

definition succeeds :: "'a option \<times> 'h \<Rightarrow> bool" where
  \<comment> \<open>a call of the host that neither rejects nor throws\<close>
  "succeeds r \<longleftrightarrow> fst r \<noteq> None"

definition completes :: "'a option \<times> effect list \<times> 'h \<Rightarrow> bool" where
  \<comment> \<open>a handler that ran to its end\<close>
  "completes r \<longleftrightarrow> fst r \<noteq> None"

definition resolves :: "'h host \<Rightarrow> bool" where
  \<comment> \<open>no call of the host rejects or throws\<close>
  "resolves H \<longleftrightarrow>
     (\<forall>n h. succeeds (doesIconPackExist H n h)) \<and>
     (\<forall>n h. succeeds (createCustomIconPackDirectory H n h)) \<and>
     (\<forall>f h. succeeds (readFileSync H f h)) \<and>
     (\<forall>p n c h. succeeds (createFile H p n c h)) \<and>
     (\<forall>p n c h. succeeds (addIconToIconPack H p n c h)) \<and>
     (\<forall>p h. succeeds (getFilesInIconPackDirectory H p h)) \<and>
     (\<forall>f h. succeeds (adapterRead H f h))"

definition memoryHost :: "(string \<times> string) list host" where
  \<comment> \<open>a host for the examples: its state is the list of registered icons, each with the
      name of its pack\<close>
  "memoryHost =
     \<lparr>doesIconPackExist = (\<lambda>n h. (Some (n \<in> set (map fst h)), h)),
      createCustomIconPackDirectory = (\<lambda>n h. (Some (), h)),
      readFileSync = (\<lambda>f h. (Some (''<svg id='' @ name f @ ''/>''), h)),
      createFile = (\<lambda>p n c h. (Some (), h)),
      addIconToIconPack = (\<lambda>p n c h. (Some (), h @ [(p, n)])),
      getFilesInIconPackDirectory =
        (\<lambda>p h. (Some (map (\<lambda>x. ''/packs/'' @ fst x @ ''/'' @ snd x)
                         (filter (\<lambda>x. fst x = p) h)), h)),
      adapterRead = (\<lambda>f h. (Some ''<svg/>'', h)),
      iconsLength = (\<lambda>p h. length (filter (\<lambda>x. fst x = p) h))\<rparr>"

subsection \<open>What the recorded calls did to the host\<close>

fun hostStep :: "'h host \<Rightarrow> effect \<Rightarrow> 'h \<Rightarrow> 'h" where
  \<comment> \<open>the state in which the call that an effect records leaves the host; the widget
      effects are no calls of the host\<close>
  "hostStep H (DoesIconPackExist n) h = snd (doesIconPackExist H n h)"
| "hostStep H (CreateCustomIconPackDirectory n) h = snd (createCustomIconPackDirectory H n h)"
| "hostStep H (ReadFileSync f) h = snd (readFileSync H f h)"
| "hostStep H (CreateFile p n c) h = snd (createFile H p n c h)"
| "hostStep H (AddIconToIconPack p n c) h = snd (addIconToIconPack H p n c h)"
| "hostStep H (GetFilesInIconPackDirectory p) h = snd (getFilesInIconPackDirectory H p h)"
| "hostStep H (AdapterRead f) h = snd (adapterRead H f h)"
| "hostStep H (Notice m) h = h"
| "hostStep H (SetValue v) h = h"
| "hostStep H RefreshDisplay h = h"
| "hostStep H (SetDesc d) h = h"

fun hostAfter :: "'h host \<Rightarrow> effect list \<Rightarrow> 'h \<Rightarrow> 'h" where
  \<comment> \<open>the state of the host after the recorded calls were made on it, in their order\<close>
  "hostAfter H [] h = h"
| "hostAfter H (e # t) h = hostAfter H t (hostStep H e h)"

fun contentsRead :: "'h host \<Rightarrow> effect list \<Rightarrow> 'h \<Rightarrow> string list" where
  \<comment> \<open>what the recorded reads (\<^verbatim>\<open>readFileSync\<close>, \<^verbatim>\<open>adapter.read\<close>) return when the
      recorded calls are made on the host, in their order\<close>
  "contentsRead H [] h = []"
| "contentsRead H (e # t) h =
     (case e of
        ReadFileSync f \<Rightarrow> (case fst (readFileSync H f h) of Some c \<Rightarrow> [c] | None \<Rightarrow> [])
      | AdapterRead f \<Rightarrow> (case fst (adapterRead H f h) of Some c \<Rightarrow> [c] | None \<Rightarrow> [])
      | _ \<Rightarrow> [])
     @ contentsRead H t (hostStep H e h)"

definition pathsRead :: "effect list \<Rightarrow> string list" where
  "pathsRead t = concat (map (\<lambda>e. case e of AdapterRead f \<Rightarrow> [f] | _ \<Rightarrow> []) t)"

definition contentOf :: "string \<times> string \<times> string \<Rightarrow> string" where
  "contentOf x = snd (snd x)"

section \<open>Facts about the name normalisation\<close>

lemma toLowerCaseChar_not_upper: "\<not> isUpperCase (toLowerCaseChar c)"
proof (cases "isUpperCase c")
  case False
  then show ?thesis by (simp add: toLowerCaseChar_def)
next
  case True
  define n where "n = (of_char c :: nat)"
  from True have "(65 \<le> n \<and> n \<le> 90) \<or> (192 \<le> n \<and> n \<le> 222 \<and> n \<noteq> 215)"
    by (simp add: isUpperCase_def Let_def n_def)
  then have b: "(n + 32) mod 256 = n + 32"
    "\<not> ((65 \<le> n + 32 \<and> n + 32 \<le> 90) \<or> (192 \<le> n + 32 \<and> n + 32 \<le> 222 \<and> n + 32 \<noteq> 215))"
    by auto
  have "of_char (toLowerCaseChar c) = n + 32"
    using True b(1) by (simp add: toLowerCaseChar_def n_def)
  then show ?thesis using b(2) by (simp add: isUpperCase_def Let_def)
qed

lemma toLowerCaseChar_fixed: "\<not> isUpperCase c \<Longrightarrow> toLowerCaseChar c = c"
  by (simp add: toLowerCaseChar_def)

lemma hyphen_plain: "\<not> isUpperCase CHR ''-''" "\<not> isWhiteSpace CHR ''-''"
  by (simp_all add: isUpperCase_def isWhiteSpace_def)

lemma normalizeIconPackName_map:
  "normalizeIconPackName v =
     map (\<lambda>c. if isWhiteSpace (toLowerCaseChar c) then CHR ''-'' else toLowerCaseChar c) v"
  by (simp add: normalizeIconPackName_def replaceWhiteSpace_def toLowerCase_def)

lemma normalizeIconPackName_plain:
  "c \<in> set (normalizeIconPackName v) \<Longrightarrow> \<not> isUpperCase c \<and> \<not> isWhiteSpace c"
  by (auto simp add: normalizeIconPackName_map hyphen_plain toLowerCaseChar_not_upper
      split: if_splits)

lemma normalizeIconPackName_fixed:
  "(\<And>c. c \<in> set v \<Longrightarrow> \<not> isUpperCase c \<and> \<not> isWhiteSpace c) \<Longrightarrow> normalizeIconPackName v = v"
  by (induction v) (simp_all add: normalizeIconPackName_map toLowerCaseChar_fixed)

section \<open>Facts about the drag highlight\<close>

lemma consistent_constructed: "consistent constructed"
  by (simp add: consistent_def constructed_def)

lemma consistent_highlight: "consistent s \<Longrightarrow> consistent (highlight r s)"
  by (auto simp add: consistent_def highlight_def clearTimeout_def classListAdd_def
      appendChild_def Let_def)

lemma detach_owner:
  assumes "consistent s" and "dragTargetElement s = Some x"
  shows "\<exists>s1. detach x s = Inr s1 \<and> dragTargetElement s1 = None \<and>
           closeTimer s1 = closeTimer s \<and> now s1 = now s \<and>
           overlayChildOf s1 = (\<lambda>_. False) \<and> hasDragoverClass s1 = (\<lambda>_. False)"
  using assms
  by (auto simp add: consistent_def detach_def removeChild_def classListRemove_def fun_eq_iff)

lemma consistent_unhighlight:
  assumes "consistent s"
  shows "\<exists>s1. unhighlight r r s = Inr s1 \<and> consistent s1"
proof (cases "dragTargetElement s")
  case None
  with assms show ?thesis
    by (auto simp add: unhighlight_def consistent_def setTimeout_def clearTimeout_def)
next
  case (Some x)
  show ?thesis
  proof (cases "x = r")
    case True
    with Some assms show ?thesis
      by (auto simp add: unhighlight_def consistent_def setTimeout_def clearTimeout_def)
  next
    case False
    from detach_owner [OF assms Some] obtain s1 where
      "detach x s = Inr s1" "dragTargetElement s1 = None"
      "overlayChildOf s1 = (\<lambda>_. False)" "hasDragoverClass s1 = (\<lambda>_. False)"
      by blast
    with Some False show ?thesis
      by (simp add: unhighlight_def consistent_def setTimeout_def clearTimeout_def)
  qed
qed

lemma consistent_timer:
  assumes "consistent s"
  shows "\<exists>s1. dispatch TimerFires s = Inr s1 \<and> consistent s1"
proof (cases "closeTimer s")
  case None
  with assms show ?thesis by simp
next
  case (Some p)
  obtain due el where p: "p = (due, el)" by (cases p)
  show ?thesis
  proof (cases "due \<le> now s \<and> dragTargetElement s \<noteq> None")
    case False
    with Some p assms show ?thesis
      by (auto simp add: closeTimerCallback_def consistent_def)
  next
    case True
    with Some p assms have own: "dragTargetElement s = Some el"
      by (auto simp add: consistent_def)
    let ?s = "s\<lparr>closeTimer := None\<rparr>"
    have c: "consistent ?s" using assms by (simp add: consistent_def)
    have o: "dragTargetElement ?s = Some el" using own by simp
    from detach_owner [OF c o] obtain s1 where
      "detach el ?s = Inr s1" "dragTargetElement s1 = None"
      "overlayChildOf s1 = (\<lambda>_. False)" "hasDragoverClass s1 = (\<lambda>_. False)"
      "closeTimer s1 = closeTimer ?s"
      by blast
    with True Some p show ?thesis
      by (simp add: closeTimerCallback_def consistent_def)
  qed
qed

lemma consistent_dispatch:
  assumes "consistent s"
  shows "\<exists>s1. dispatch e s = Inr s1 \<and> consistent s1"
proof (cases e)
  case (Elapse d)
  with assms show ?thesis by (simp add: consistent_def)
next
  case TimerFires
  with consistent_timer [OF assms] show ?thesis by simp
qed (use assms consistent_highlight consistent_unhighlight in auto)

lemma consistent_run:
  "consistent s \<Longrightarrow> \<exists>s1. run es s = Inr s1 \<and> consistent s1"
proof (induction es arbitrary: s)
  case Nil
  then show ?case by simp
next
  case (Cons e es)
  from consistent_dispatch [OF Cons.prems, of e] obtain s1 where
    "dispatch e s = Inr s1" "consistent s1" by blast
  with Cons.IH [of s1] show ?case by simp
qed

lemma run_append:
  "run (xs @ ys) s = (case run xs s of Inl e \<Rightarrow> Inl e | Inr s1 \<Rightarrow> run ys s1)"
  by (induction xs arbitrary: s) (simp_all split: sum.splits)

lemma run_before_due:
  assumes "closeTimer s = Some (due, el)" and "now s + elapsed es < due"
    and "\<forall>e\<in>set es. isTimeEvent e"
  shows "run es s = Inr (s\<lparr>now := now s + elapsed es\<rparr>)"
  using assms
proof (induction es arbitrary: s)
  case Nil
  then show ?case by simp
next
  case (Cons e es)
  show ?case
  proof (cases e)
    case (Elapse d)
    let ?s = "s\<lparr>now := now s + d\<rparr>"
    have "run es ?s = Inr (?s\<lparr>now := now ?s + elapsed es\<rparr>)"
      using Cons.prems Elapse by (intro Cons.IH) simp_all
    with Elapse show ?thesis by (simp add: add.assoc)
  next
    case TimerFires
    have "run es s = Inr (s\<lparr>now := now s + elapsed es\<rparr>)"
      using Cons.prems TimerFires by (intro Cons.IH) simp_all
    moreover have "dispatch TimerFires s = Inr s"
      using Cons.prems(1,2) by simp
    ultimately show ?thesis using TimerFires by simp
  qed (use Cons.prems in \<open>simp_all add: isTimeEvent_def\<close>)
qed

lemma run_no_timer:
  assumes "closeTimer s = None" and "\<forall>e\<in>set es. isTimeEvent e"
  shows "run es s = Inr (s\<lparr>now := now s + elapsed es\<rparr>)"
  using assms
proof (induction es arbitrary: s)
  case Nil
  then show ?case by simp
next
  case (Cons e es)
  show ?case
  proof (cases e)
    case (Elapse d)
    let ?s = "s\<lparr>now := now s + d\<rparr>"
    have "run es ?s = Inr (?s\<lparr>now := now ?s + elapsed es\<rparr>)"
      using Cons.prems Elapse by (intro Cons.IH) simp_all
    with Elapse show ?thesis by (simp add: add.assoc)
  next
    case TimerFires
    have "run es s = Inr (s\<lparr>now := now s + elapsed es\<rparr>)"
      using Cons.prems TimerFires by (intro Cons.IH) simp_all
    moreover have "dispatch TimerFires s = Inr s"
      using Cons.prems(1) by simp
    ultimately show ?thesis using TimerFires by simp
  qed (use Cons.prems in \<open>simp_all add: isTimeEvent_def\<close>)
qed

lemma release_after_100:
  assumes "dragTargetElement s = Some r" and "overlayChildOf s r"
  shows "\<exists>s1. run [DragLeave r, Elapse 100, TimerFires] s = Inr s1 \<and>
           \<not> overlayChildOf s1 r \<and> \<not> hasDragoverClass s1 r \<and> dragTargetElement s1 = None"
  using assms
  by (simp add: unhighlight_def setTimeout_def clearTimeout_def closeTimerCallback_def
      detach_def removeChild_def classListRemove_def)

section \<open>Facts about the handlers\<close>

lemma andThen_Some:
  "andThen m f h = (Some b, t, h') \<longleftrightarrow>
     (\<exists>a t1 h1 t2. m h = (Some a, t1, h1) \<and> f a h1 = (Some b, t2, h') \<and> t = t1 @ t2)"
  by (auto simp add: andThen_def split: prod.splits option.splits)

lemma invoke_Some:
  "invoke e call h = (Some a, t, h') \<longleftrightarrow> call h = (Some a, h') \<and> t = [e]"
  by (auto simp add: invoke_def split: prod.splits)

lemma emit_Some: "emit e h = (Some a, t, h') \<longleftrightarrow> t = [e] \<and> h' = h"
  by (auto simp add: emit_def)

lemma observe_Some: "observe f h = (Some a, t, h') \<longleftrightarrow> a = f h \<and> t = [] \<and> h' = h"
  by (auto simp add: observe_def)

lemma pure_Some: "pure x h = (Some a, t, h') \<longleftrightarrow> a = x \<and> t = [] \<and> h' = h"
  by (auto simp add: pure_def)

lemmas handler_Some = andThen_Some invoke_Some emit_Some observe_Some pure_Some

lemma notices_simps:
  "notices [] = []" "notices (t1 @ t2) = notices t1 @ notices t2"
  "notices (e # t) = (case e of Notice m \<Rightarrow> [m] | _ \<Rightarrow> []) @ notices t"
  by (simp_all add: notices_def)

lemma descriptions_simps:
  "descriptions [] = []" "descriptions (t1 @ t2) = descriptions t1 @ descriptions t2"
  "descriptions (e # t) = (case e of SetDesc m \<Rightarrow> [m] | _ \<Rightarrow> []) @ descriptions t"
  by (simp_all add: descriptions_def)

lemma filesRead_simps:
  "filesRead [] = []" "filesRead (t1 @ t2) = filesRead t1 @ filesRead t2"
  "filesRead (e # t) = (case e of ReadFileSync f \<Rightarrow> [f] | _ \<Rightarrow> []) @ filesRead t"
  by (simp_all add: filesRead_def)

lemma filesCreated_simps:
  "filesCreated [] = []" "filesCreated (t1 @ t2) = filesCreated t1 @ filesCreated t2"
  "filesCreated (e # t) =
     (case e of CreateFile p n c \<Rightarrow> [(p, n, c)] | _ \<Rightarrow> []) @ filesCreated t"
  by (simp_all add: filesCreated_def)

lemma iconsAdded_simps:
  "iconsAdded [] = []" "iconsAdded (t1 @ t2) = iconsAdded t1 @ iconsAdded t2"
  "iconsAdded (e # t) =
     (case e of AddIconToIconPack p n c \<Rightarrow> [(p, n, c)] | _ \<Rightarrow> []) @ iconsAdded t"
  by (simp_all add: iconsAdded_def)

lemmas effects_simps = notices_simps descriptions_simps filesRead_simps filesCreated_simps
  iconsAdded_simps

lemma completes_iff: "completes r \<longleftrightarrow> (\<exists>a t h'. r = (Some a, t, h'))"
  by (cases r) (auto simp add: completes_def)

lemma completes_andThen:
  assumes "completes (m h)" and "\<And>a h1. completes (f a h1)"
  shows "completes (andThen m f h)"
proof -
  obtain x t1 h1 where m: "m h = (x, t1, h1)" by (cases "m h")
  with assms(1) obtain a where x: "x = Some a" by (auto simp add: completes_def)
  obtain r t2 h2 where f: "f a h1 = (r, t2, h2)" by (cases "f a h1")
  with assms(2) [of a h1] have "r \<noteq> None" by (simp add: completes_def)
  with m x f show ?thesis by (simp add: andThen_def completes_def)
qed

lemma completes_invoke: "succeeds (call h) \<Longrightarrow> completes (invoke e call h)"
  by (cases "call h") (simp add: invoke_def completes_def succeeds_def)

lemma completes_simple:
  "completes (emit e h)" "completes (observe g h)" "completes (pure x h)"
  by (simp_all add: emit_def observe_def pure_def completes_def)



lemma completes_addSelectedFiles:
  "resolves H \<Longrightarrow> completes (addSelectedFiles H pack fs h)"
proof (induction fs arbitrary: h)
  case Nil
  then show ?case by (simp add: completes_simple)
next
  case (Cons f fs)
  then show ?case
    by (auto intro!: completes_andThen completes_invoke completes_simple
        simp add: resolves_def)
qed

lemma completes_onFilesSelected:
  "resolves H \<Longrightarrow> completes (onFilesSelected H pack fs h)"
  unfolding onFilesSelected_def
  by (intro completes_andThen completes_addSelectedFiles completes_simple)

lemma completes_refreshFiles:
  "resolves H \<Longrightarrow> completes (refreshFiles H pack fs h)"
proof (induction fs arbitrary: h)
  case Nil
  then show ?case by (simp add: completes_simple)
next
  case (Cons f fs)
  then show ?case
    by (auto intro!: completes_andThen completes_invoke completes_simple
        simp add: resolves_def Let_def)
qed

lemma completes_onRefreshClick: "resolves H \<Longrightarrow> completes (onRefreshClick H pack h)"
  unfolding onRefreshClick_def
  by (intro completes_andThen completes_refreshFiles completes_simple completes_invoke)
     (simp add: resolves_def)

lemma completes_onAddIconPackClick:
  "resolves H \<Longrightarrow> completes (onAddIconPackClick H n h)"
  unfolding onAddIconPackClick_def
  by (auto intro!: completes_andThen completes_simple completes_invoke
      simp add: resolves_def Let_def)

lemma resolves_memoryHost: "resolves memoryHost"
  by (simp add: resolves_def memoryHost_def succeeds_def)


lemma isWhiteSpace_toLowerCaseChar: "isWhiteSpace (toLowerCaseChar c) \<longleftrightarrow> isWhiteSpace c"
proof (cases "isUpperCase c")
  case False
  then show ?thesis by (simp add: toLowerCaseChar_def)
next
  case True
  define n where "n = (of_char c :: nat)"
  from True have r: "(65 \<le> n \<and> n \<le> 90) \<or> (192 \<le> n \<and> n \<le> 222 \<and> n \<noteq> 215)"
    by (simp add: isUpperCase_def Let_def n_def)
  then have b: "(n + 32) mod 256 = n + 32" by auto
  have l: "of_char (toLowerCaseChar c) = n + 32"
    using True b by (simp add: toLowerCaseChar_def n_def)
  have 1: "\<not> ((9 \<le> n \<and> n \<le> 13) \<or> n = 32 \<or> n = 160)"
    using r by arith
  have 2: "\<not> ((9 \<le> n + 32 \<and> n + 32 \<le> 13) \<or> n + 32 = 32 \<or> n + 32 = 160)"
    using r by arith
  have "\<not> isWhiteSpace c" using 1 by (simp add: isWhiteSpace_def Let_def n_def)
  moreover have "\<not> isWhiteSpace (toLowerCaseChar c)"
    using 2 by (simp add: isWhiteSpace_def Let_def l)
  ultimately show ?thesis by simp
qed

section \<open>The properties of the specification\<close>

subsection \<open>Name normalisation\<close>

lemma normalizeIconPackName_latin1:
  "normalizeIconPackName v =
     map (\<lambda>c. if isWhiteSpace c then CHR ''-'' else toLowerCaseChar c) v \<and>
   normalizeIconPackName ''My Pack'' = ''my-pack'' \<and>
   (\<forall>c\<in>set (normalizeIconPackName v). \<not> isUpperCase c \<and> \<not> isWhiteSpace c) \<and>
   ((\<forall>c\<in>set v. \<not> isUpperCase c \<and> \<not> isWhiteSpace c) \<longrightarrow> normalizeIconPackName v = v) \<and>
   normalizeIconPackName (normalizeIconPackName v) = normalizeIconPackName v"
proof -
  have 1: "normalizeIconPackName v =
     map (\<lambda>c. if isWhiteSpace c then CHR ''-'' else toLowerCaseChar c) v"
    by (simp add: normalizeIconPackName_map isWhiteSpace_toLowerCaseChar)
  have 2: "normalizeIconPackName ''My Pack'' = ''my-pack''"
    by code_simp
  have 3: "\<forall>c\<in>set (normalizeIconPackName v). \<not> isUpperCase c \<and> \<not> isWhiteSpace c"
    using normalizeIconPackName_plain by blast
  have 4: "(\<forall>c\<in>set v. \<not> isUpperCase c \<and> \<not> isWhiteSpace c) \<longrightarrow> normalizeIconPackName v = v"
    using normalizeIconPackName_fixed [of v] by blast
  have 5: "normalizeIconPackName (normalizeIconPackName v) = normalizeIconPackName v"
    using normalizeIconPackName_fixed [of "normalizeIconPackName v"] 3 by blast
  from 1 2 3 4 5 show ?thesis by blast
qed
















lemma normalizeIconPackNameUtf16_longer:
  "normalizeIconPackNameUtf16 toLowerCaseExcerpt [0x130, 0x20, 0x3000, 0xFEFF]
     = [0x69, 0x307, 45, 45, 45]"
  by (simp add: isWhiteSpaceUnit_def normalizeIconPackNameUtf16_def replaceWhiteSpaceUnits_def
      toLowerCaseExcerpt_def toLowerCaseUnit_def isUpperCaseUnit_def)

subsection \<open>The drag highlight\<close>

text \<open>
  C1, as amended. A call \<^verbatim>\<open>highlight(rowB)\<close> made while another element \<^verbatim>\<open>rowA\<close>
  owns the overlay cancels the pending timeout and changes nothing else: \<^verbatim>\<open>rowA\<close>
  keeps the overlay, the class and the ownership, and \<^verbatim>\<open>rowB\<close> is not highlighted.
  A call of \<^verbatim>\<open>highlight\<close> makes its row the owner only when no element owns the
  overlay. It is \<^verbatim>\<open>unhighlight\<close>, called for another row, that detaches the overlay
  from \<^verbatim>\<open>rowA\<close>, removes its class and clears the ownership; a call
  \<^verbatim>\<open>highlight(rowB)\<close> after it highlights \<^verbatim>\<open>rowB\<close>.
\<close>

theorem highlight_while_owned:
  assumes "dragTargetElement s = Some a" and "a \<noteq> b"
  shows "highlight b s = s\<lparr>closeTimer := None\<rparr> \<and>
         dragTargetElement (highlight b s) = Some a \<and>
         overlayChildOf (highlight b s) = overlayChildOf s \<and>
         hasDragoverClass (highlight b s) = hasDragoverClass s \<and>
         (\<forall>s0. dragTargetElement (highlight b s0) = Some b \<and> dragTargetElement s0 \<noteq> Some b
            \<longrightarrow> dragTargetElement s0 = None) \<and>
         (overlayChildOf s a \<longrightarrow>
            (\<exists>s1. unhighlight b b s = Inr s1 \<and>
                  \<not> overlayChildOf s1 a \<and> \<not> hasDragoverClass s1 a \<and>
                  dragTargetElement s1 = None \<and>
                  dragTargetElement (highlight b s1) = Some b \<and>
                  overlayChildOf (highlight b s1) b \<and> hasDragoverClass (highlight b s1) b))"
proof -
  have 1: "highlight b s = s\<lparr>closeTimer := None\<rparr>"
    using assms(1) by (simp add: highlight_def clearTimeout_def)
  have 2: "\<forall>s0. dragTargetElement (highlight b s0) = Some b \<and> dragTargetElement s0 \<noteq> Some b
            \<longrightarrow> dragTargetElement s0 = None"
    by (auto simp add: highlight_def clearTimeout_def Let_def split: if_splits)
  have 3: "overlayChildOf s a \<longrightarrow>
            (\<exists>s1. unhighlight b b s = Inr s1 \<and>
                  \<not> overlayChildOf s1 a \<and> \<not> hasDragoverClass s1 a \<and>
                  dragTargetElement s1 = None \<and>
                  dragTargetElement (highlight b s1) = Some b \<and>
                  overlayChildOf (highlight b s1) b \<and> hasDragoverClass (highlight b s1) b)"
    using assms
    by (simp add: unhighlight_def detach_def removeChild_def classListRemove_def
        setTimeout_def clearTimeout_def highlight_def classListAdd_def appendChild_def)
  from 1 2 3 assms(1) show ?thesis by simp
qed

theorem highlight_while_owned_witness:
  "dragTargetElement (highlight (SettingEl 0) constructed) = Some (SettingEl 0) \<and>
   SettingEl 0 \<noteq> SettingEl 1 \<and>
   overlayChildOf (highlight (SettingEl 0) constructed) (SettingEl 0) \<and>
   dragTargetElement (highlight (SettingEl 1) (highlight (SettingEl 0) constructed))
     = Some (SettingEl 0) \<and>
   (\<exists>s1. unhighlight (SettingEl 1) (SettingEl 1) (highlight (SettingEl 0) constructed) = Inr s1 \<and>
         \<not> overlayChildOf s1 (SettingEl 0) \<and>
         dragTargetElement (highlight (SettingEl 1) s1) = Some (SettingEl 1))"
proof -
  have a: "dragTargetElement (highlight (SettingEl 0) constructed) = Some (SettingEl 0)"
    by (simp add: highlight_def constructed_def clearTimeout_def)
  have b: "SettingEl 0 \<noteq> SettingEl 1"
    by simp
  have c: "overlayChildOf (highlight (SettingEl 0) constructed) (SettingEl 0)"
    by (simp add: highlight_def constructed_def clearTimeout_def classListAdd_def
        appendChild_def)
  from highlight_while_owned [OF a b] a b c show ?thesis
    by blast
qed

theorem highlight_second_row_counterexample:
  "dragTargetElement (highlight (SettingEl 0) constructed) = Some (SettingEl 0) \<and>
   dragTargetElement (highlight (SettingEl 1) (highlight (SettingEl 0) constructed))
     = Some (SettingEl 0) \<and>
   overlayChildOf (highlight (SettingEl 1) (highlight (SettingEl 0) constructed)) (SettingEl 0) \<and>
   hasDragoverClass (highlight (SettingEl 1) (highlight (SettingEl 0) constructed)) (SettingEl 0) \<and>
   \<not> overlayChildOf (highlight (SettingEl 1) (highlight (SettingEl 0) constructed)) (SettingEl 1) \<and>
   \<not> hasDragoverClass (highlight (SettingEl 1) (highlight (SettingEl 0) constructed)) (SettingEl 1)"
  by (simp add: highlight_def constructed_def clearTimeout_def classListAdd_def appendChild_def)

text \<open>
  C3, as amended. In every state that the listeners and the timer can reach from the
  constructed panel, no listener having thrown, the overlay is a child of the owner and
  of no other element, so of at most one row. From such a state, \<^verbatim>\<open>highlight(rowA)\<close>
  followed by \<^verbatim>\<open>highlight(rowB)\<close> never leaves the overlay on both rows. It leaves the
  overlay on \<^verbatim>\<open>rowA\<close> and nowhere else when no row other than \<^verbatim>\<open>rowA\<close> owned the
  overlay before; when a row owned the overlay before, the overlay stays on that row and
  nowhere else.
\<close>

theorem overlay_on_one_row:
  "\<exists>s. run es constructed = Inr s \<and>
       (\<forall>x y. overlayChildOf s x \<and> overlayChildOf s y \<longrightarrow> x = y) \<and>
       (\<forall>x. overlayChildOf s x \<longleftrightarrow> dragTargetElement s = Some x) \<and>
       (\<forall>a b. a \<noteq> b \<longrightarrow>
          \<not> (overlayChildOf (highlight b (highlight a s)) a \<and>
             overlayChildOf (highlight b (highlight a s)) b)) \<and>
       (\<forall>a b x. dragTargetElement s = None \<or> dragTargetElement s = Some a \<longrightarrow>
          (overlayChildOf (highlight b (highlight a s)) x \<longleftrightarrow> x = a)) \<and>
       (\<forall>a b c x. dragTargetElement s = Some c \<longrightarrow>
          (overlayChildOf (highlight b (highlight a s)) x \<longleftrightarrow> x = c))"
proof -
  from consistent_run [OF consistent_constructed, of es] obtain s where
    r: "run es constructed = Inr s" and c: "consistent s" by blast
  have 1: "\<forall>x y. overlayChildOf s x \<and> overlayChildOf s y \<longrightarrow> x = y"
    using c by (auto simp add: consistent_def)
  have 2: "\<forall>x. overlayChildOf s x \<longleftrightarrow> dragTargetElement s = Some x"
    using c by (simp add: consistent_def)
  have 3: "\<not> (overlayChildOf (highlight b (highlight a s)) a \<and>
             overlayChildOf (highlight b (highlight a s)) b)" if "a \<noteq> b" for a b
  proof -
    have "consistent (highlight b (highlight a s))"
      using c by (intro consistent_highlight)
    with that show ?thesis by (auto simp add: consistent_def)
  qed
  have 4: "overlayChildOf (highlight b (highlight a s)) x \<longleftrightarrow> x = a"
    if "dragTargetElement s = None \<or> dragTargetElement s = Some a" for a b x
  proof -
    have o: "dragTargetElement (highlight b (highlight a s)) = Some a"
      using that by (auto simp add: highlight_def clearTimeout_def)
    have "consistent (highlight b (highlight a s))"
      using c by (intro consistent_highlight)
    with o show ?thesis by (auto simp add: consistent_def)
  qed
  have 5: "overlayChildOf (highlight b (highlight a s)) x \<longleftrightarrow> x = c'"
    if "dragTargetElement s = Some c'" for a b c' x
  proof -
    have o: "dragTargetElement (highlight b (highlight a s)) = Some c'"
      using that by (simp add: highlight_def clearTimeout_def)
    have "consistent (highlight b (highlight a s))"
      using c by (intro consistent_highlight)
    with o show ?thesis by (auto simp add: consistent_def)
  qed
  from r 1 2 3 4 5 show ?thesis by blast
qed

theorem overlay_on_one_row_witness:
  "(\<exists>s. run [DragEnter (SettingEl 0), DragLeave (SettingEl 0), Elapse 100, TimerFires] constructed
          = Inr s \<and>
        dragTargetElement s = None \<and>
        overlayChildOf (highlight (SettingEl 2) (highlight (SettingEl 1) s)) (SettingEl 1) \<and>
        \<not> overlayChildOf (highlight (SettingEl 2) (highlight (SettingEl 1) s)) (SettingEl 2))"
proof -
  let ?es = "[DragEnter (SettingEl 0), DragLeave (SettingEl 0), Elapse 100, TimerFires]"
  let ?s0 = "highlight (SettingEl 0) constructed"
  from overlay_on_one_row [of ?es] obtain s where
    r: "run ?es constructed = Inr s" and
    h: "\<forall>a b x. dragTargetElement s = None \<or> dragTargetElement s = Some a \<longrightarrow>
          (overlayChildOf (highlight b (highlight a s)) x \<longleftrightarrow> x = a)"
    by (elim exE conjE) (rule that; assumption)
  have a: "dragTargetElement ?s0 = Some (SettingEl 0)" "overlayChildOf ?s0 (SettingEl 0)"
    by (simp_all add: highlight_def constructed_def clearTimeout_def classListAdd_def
        appendChild_def)
  from release_after_100 [OF a] obtain s1 where
    e1: "run [DragLeave (SettingEl 0), Elapse 100, TimerFires] ?s0 = Inr s1" and
    n1: "dragTargetElement s1 = None"
    by blast
  have e2: "run ?es constructed = run [DragLeave (SettingEl 0), Elapse 100, TimerFires] ?s0"
    by (simp only: run.simps dispatch.simps sum.case)
  from r e1 e2 have "Inr s = (Inr s1 :: error + panel)"
    by (simp only:)
  then have "s = s1"
    by (simp only: sum.inject)
  with n1 have n: "dragTargetElement s = None"
    by (simp only:)
  note q = h [rule_format, of "SettingEl 1" "SettingEl 2", OF disjI1, OF n]
  have "overlayChildOf (highlight (SettingEl 2) (highlight (SettingEl 1) s)) (SettingEl 1)"
    "\<not> overlayChildOf (highlight (SettingEl 2) (highlight (SettingEl 1) s)) (SettingEl 2)"
    by (simp_all only: q element.inject)
  with r n show ?thesis by (intro exI [of _ s] conjI)
qed

theorem highlight_pair_counterexample:
  "run [DragEnter (SettingEl 2)] constructed = Inr (highlight (SettingEl 2) constructed) \<and>
   overlayChildOf
     (highlight (SettingEl 1) (highlight (SettingEl 0) (highlight (SettingEl 2) constructed)))
     (SettingEl 2) \<and>
   \<not> overlayChildOf
     (highlight (SettingEl 1) (highlight (SettingEl 0) (highlight (SettingEl 2) constructed)))
     (SettingEl 0)"
  by (simp add: highlight_def constructed_def clearTimeout_def classListAdd_def appendChild_def)

text \<open>
  C4. Let a row own the overlay. When \<^verbatim>\<open>unhighlight\<close> is called for the row and
  \<^verbatim>\<open>highlight\<close> is called for the same row before 100 milliseconds have passed, the
  timeout has not run in between, however often the event loop looked at it, and
  \<^verbatim>\<open>highlight\<close> cancels it: the overlay and the class stay where they were, the row
  stays the owner, no timeout is pending, and no later passing of time changes that.
\<close>

theorem unhighlight_then_highlight_keeps_overlay:
  assumes "dragTargetElement s = Some r" and "overlayChildOf s r"
    and "\<forall>e\<in>set es. isTimeEvent e" and "elapsed es < 100"
    and "\<forall>e\<in>set later. isTimeEvent e"
  shows "\<exists>s1. run (DragLeave r # es @ [DragEnter r] @ later) s = Inr s1 \<and>
           overlayChildOf s1 r \<and> overlayChildOf s1 = overlayChildOf s \<and>
           hasDragoverClass s1 = hasDragoverClass s \<and>
           dragTargetElement s1 = Some r \<and> closeTimer s1 = None"
proof -
  let ?s1 = "s\<lparr>closeTimer := Some (now s + 100, r)\<rparr>"
  let ?s2 = "?s1\<lparr>now := now ?s1 + elapsed es\<rparr>"
  let ?s3 = "?s2\<lparr>closeTimer := None\<rparr>"
  have 1: "unhighlight r r s = Inr ?s1"
    using assms(1) by (simp add: unhighlight_def setTimeout_def clearTimeout_def)
  have 2: "run es ?s1 = Inr ?s2"
    using assms(3,4) by (intro run_before_due [where due = "now s + 100" and el = r]) simp_all
  have 3: "highlight r ?s2 = ?s3"
    using assms(1) by (simp add: highlight_def clearTimeout_def)
  have 4: "run later ?s3 = Inr (?s3\<lparr>now := now ?s3 + elapsed later\<rparr>)"
    using assms(5) by (intro run_no_timer) simp_all
  have "run (DragLeave r # es @ [DragEnter r] @ later) s =
      Inr (?s3\<lparr>now := now ?s3 + elapsed later\<rparr>)"
    using 1 2 3 4 by (simp add: run_append)
  then show ?thesis using assms(1,2) by simp
qed

theorem unhighlight_then_highlight_witness:
  "dragTargetElement (highlight (SettingEl 0) constructed) = Some (SettingEl 0) \<and>
   overlayChildOf (highlight (SettingEl 0) constructed) (SettingEl 0) \<and>
   list_all isTimeEvent [Elapse 60, TimerFires, Elapse 39, TimerFires] \<and>
   elapsed [Elapse 60, TimerFires, Elapse 39, TimerFires] < 100 \<and>
   list_all isTimeEvent [Elapse 500, TimerFires] \<and>
   (\<exists>s1. run [DragLeave (SettingEl 0), Elapse 60, TimerFires, Elapse 39, TimerFires,
              DragEnter (SettingEl 0), Elapse 500, TimerFires]
            (highlight (SettingEl 0) constructed) = Inr s1 \<and>
         overlayChildOf s1 (SettingEl 0) \<and> dragTargetElement s1 = Some (SettingEl 0))"
proof -
  let ?s = "highlight (SettingEl 0) constructed"
  have a: "dragTargetElement ?s = Some (SettingEl 0)" "overlayChildOf ?s (SettingEl 0)"
    by (simp_all add: highlight_def constructed_def clearTimeout_def classListAdd_def
        appendChild_def)
  have b: "\<forall>e\<in>set [Elapse 60, TimerFires, Elapse 39, TimerFires]. isTimeEvent e"
    "elapsed [Elapse 60, TimerFires, Elapse 39, TimerFires] < 100"
    "\<forall>e\<in>set [Elapse 500, TimerFires]. isTimeEvent e"
    by (simp_all add: isTimeEvent_def)
  have l: "list_all isTimeEvent [Elapse 60, TimerFires, Elapse 39, TimerFires]"
    "list_all isTimeEvent [Elapse 500, TimerFires]"
    by (simp_all add: isTimeEvent_def)
  from unhighlight_then_highlight_keeps_overlay [OF a b]
  show ?thesis using a b(2) l by auto
qed

subsection \<open>The handlers\<close>

lemma split_not_Nil: "split sep s \<noteq> []"
  by (induction s) (simp_all split: list.splits)

lemma pop_split: "pop (split sep s) = Some (last (split sep s))"
  by (simp add: pop_def split_not_Nil)

lemma numberToString_head:
  "numberToString n \<noteq> [] \<and> hd (numberToString n) \<noteq> CHR ''F''"
proof (induction n rule: numberToString.induct)
  case (1 n)
  show ?case
  proof (cases "n < 10")
    case True
    have "char_of (48 + n) \<noteq> CHR ''F''"
    proof
      assume "char_of (48 + n) = CHR ''F''"
      then have "(of_char (char_of (48 + n)) :: nat) = of_char CHR ''F''"
        by (simp only:)
      with True show False by simp
    qed
    with True show ?thesis by (simp add: numberToString.simps [of n])
  next
    case False
    with 1 show ?thesis by (simp add: numberToString.simps [of n])
  qed
qed

lemma notSvgNotice_not_count: "notSvgNotice f \<noteq> numberToString n @ rest"
proof
  assume "notSvgNotice f = numberToString n @ rest"
  then have "hd (notSvgNotice f) = hd (numberToString n @ rest)"
    by (simp only:)
  with numberToString_head [of n] show False
    by (simp add: notSvgNotice_def)
qed

lemma addSelectedFiles_effects:
  "addSelectedFiles H pack fs h = (Some u, t, h') \<Longrightarrow>
     notices t = [] \<and> descriptions t = [] \<and> filesRead t = fs \<and>
     filesCreated t = iconsAdded t \<and>
     map packAndName (iconsAdded t) = map (\<lambda>f. (pack, name f)) fs"
proof (induction fs arbitrary: h t h')
  case Nil
  then show ?case by (simp add: handler_Some effects_simps)
next
  case (Cons f fs)
  from Cons.prems obtain content h3 t2 where
    r: "addSelectedFiles H pack fs h3 = (Some u, t2, h')" and
    t: "t = [ReadFileSync f, CreateFile pack (name f) content,
             AddIconToIconPack pack (name f) content] @ t2"
    by (auto simp add: handler_Some)
  from Cons.IH [OF r] t show ?case
    by (simp add: effects_simps packAndName_def)
qed

lemma refreshFiles_effects:
  "refreshFiles H pack fs h = (Some u, t, h') \<Longrightarrow>
     notices t = [] \<and> descriptions t = [] \<and> filesCreated t = [] \<and>
     map packAndName (iconsAdded t) = map (\<lambda>fileName. (pack, iconNameOf fileName)) fs"
proof (induction fs arbitrary: h t h')
  case Nil
  then show ?case by (simp add: handler_Some effects_simps)
next
  case (Cons f fs)
  from Cons.prems obtain svg h3 t2 where
    r: "refreshFiles H pack fs h3 = (Some u, t2, h')" and
    t: "t = [AdapterRead f, AddIconToIconPack pack (iconNameOf f) svg] @ t2"
    by (auto simp add: handler_Some Let_def)
  from Cons.IH [OF r] t show ?case
    by (simp add: effects_simps packAndName_def)
qed

lemma iconNameOf_examples:
  "iconNameOf ''/packs/foo/a.svg'' = ''a.svg''" "iconNameOf ''/packs/foo/b.svg'' = ''b.svg''"
  by code_simp+

lemma numberToString_2: "numberToString 2 = ''2''"
  by code_simp

lemma hostAfter_append: "hostAfter H (t1 @ t2) h = hostAfter H t2 (hostAfter H t1 h)"
  by (induction t1 arbitrary: h) simp_all

lemma contentsRead_append:
  "contentsRead H (t1 @ t2) h = contentsRead H t1 h @ contentsRead H t2 (hostAfter H t1 h)"
  by (induction t1 arbitrary: h) simp_all

lemma pathsRead_simps:
  "pathsRead [] = []" "pathsRead (t1 @ t2) = pathsRead t1 @ pathsRead t2"
  "pathsRead (e # t) = (case e of AdapterRead f \<Rightarrow> [f] | _ \<Rightarrow> []) @ pathsRead t"
  by (simp_all add: pathsRead_def)


lemma addSelectedFiles_host:
  "addSelectedFiles H pack fs h = (Some u, t, h') \<Longrightarrow>
     h' = hostAfter H t h \<and> map contentOf (filesCreated t) = contentsRead H t h"
proof (induction fs arbitrary: h t h')
  case Nil
  then show ?case by (simp add: handler_Some effects_simps)
next
  case (Cons f fs)
  from Cons.prems obtain content h1 h2 h3 t2 where
    c1: "readFileSync H f h = (Some content, h1)" and
    c2: "createFile H pack (name f) content h1 = (Some (), h2)" and
    c3: "addIconToIconPack H pack (name f) content h2 = (Some (), h3)" and
    r: "addSelectedFiles H pack fs h3 = (Some u, t2, h')" and
    t: "t = [ReadFileSync f, CreateFile pack (name f) content,
             AddIconToIconPack pack (name f) content] @ t2"
    by (auto simp add: handler_Some)
  from Cons.IH [OF r] c1 c2 c3 show ?case
    unfolding t by (simp add: effects_simps contentOf_def)
qed

lemma refreshFiles_host:
  "refreshFiles H pack fs h = (Some u, t, h') \<Longrightarrow>
     h' = hostAfter H t h \<and> map contentOf (iconsAdded t) = contentsRead H t h \<and>
     pathsRead t = fs"
proof (induction fs arbitrary: h t h')
  case Nil
  then show ?case by (simp add: handler_Some effects_simps pathsRead_simps)
next
  case (Cons f fs)
  from Cons.prems obtain svg h1 h2 t2 where
    c1: "adapterRead H f h = (Some svg, h1)" and
    c2: "addIconToIconPack H pack (iconNameOf f) svg h1 = (Some (), h2)" and
    r: "refreshFiles H pack fs h2 = (Some u, t2, h')" and
    t: "t = [AdapterRead f, AddIconToIconPack pack (iconNameOf f) svg] @ t2"
    by (auto simp add: handler_Some Let_def)
  from Cons.IH [OF r] c1 c2 show ?case
    unfolding t by (simp add: effects_simps contentOf_def pathsRead_simps)
qed

text \<open>
  C5. A click on the creation button with an empty text returns at once: the handler
  calls nothing and shows nothing. With a text that is not empty, when
  \<^verbatim>\<open>doesIconPackExist\<close> answers true for the normalised name, the handler shows
  the notice \<^verbatim>\<open>Icon pack already exists.\<close> and returns: it has made no other call,
  so no directory was created, and has shown no other notice.
\<close>

theorem add_icon_pack_rejected:
  "(name' = [] \<longrightarrow> onAddIconPackClick H name' h = (Some (), [], h)) \<and>
   (name' \<noteq> [] \<and>
    doesIconPackExist H (normalizeIconPackName name') h = (Some True, h1) \<longrightarrow>
      onAddIconPackClick H name' h =
        (Some (),
         [DoesIconPackExist (normalizeIconPackName name'), Notice ''Icon pack already exists.''],
         h1))"
  by (simp add: onAddIconPackClick_def pure_def andThen_def invoke_def emit_def Let_def)

theorem add_icon_pack_rejected_witness:
  "doesIconPackExist memoryHost (normalizeIconPackName ''My Pack'') [(''my-pack'', ''a.svg'')]
     = (Some True, [(''my-pack'', ''a.svg'')]) \<and>
   onAddIconPackClick memoryHost [] [] = (Some (), [], []) \<and>
   onAddIconPackClick memoryHost ''My Pack'' [(''my-pack'', ''a.svg'')] =
     (Some (), [DoesIconPackExist ''my-pack'', Notice ''Icon pack already exists.''],
      [(''my-pack'', ''a.svg'')])"
proof -
  have n: "normalizeIconPackName ''My Pack'' = ''my-pack''"
    by code_simp
  have e: "doesIconPackExist memoryHost (normalizeIconPackName ''My Pack'')
      [(''my-pack'', ''a.svg'')] = (Some True, [(''my-pack'', ''a.svg'')])"
    by (simp add: n memoryHost_def)
  have ne: "''My Pack'' \<noteq> []"
    by simp
  from add_icon_pack_rejected [of "[]" memoryHost "[]"]
  have 1: "onAddIconPackClick memoryHost [] [] = (Some (), [], [])"
    by (simp only: simp_thms)
  from add_icon_pack_rejected [of "''My Pack''" memoryHost "[(''my-pack'', ''a.svg'')]"
      "[(''my-pack'', ''a.svg'')]"] e ne
  have 2: "onAddIconPackClick memoryHost ''My Pack'' [(''my-pack'', ''a.svg'')] =
     (Some (), [DoesIconPackExist ''my-pack'', Notice ''Icon pack already exists.''],
      [(''my-pack'', ''a.svg'')])"
    by (simp only: n simp_thms)
  from e 1 2 show ?thesis by (intro conjI)
qed

text \<open>
  C6. A click on the creation button with a text that is not empty, for whose normalised
  name \<^verbatim>\<open>doesIconPackExist\<close> answers false and \<^verbatim>\<open>createCustomIconPackDirectory\<close>
  resolves: the handler asks whether the pack exists, creates the directory of the
  normalised name, sets the text field to the empty string, calls \<^verbatim>\<open>refreshDisplay\<close>,
  once, and shows the notice that names the text and the normalised name, in this order
  and nothing else.
\<close>

theorem add_icon_pack_created:
  assumes "name' \<noteq> []"
    and "doesIconPackExist H (normalizeIconPackName name') h = (Some False, h1)"
    and "createCustomIconPackDirectory H (normalizeIconPackName name') h1 = (Some (), h2)"
  shows "\<exists>t. onAddIconPackClick H name' h = (Some (), t, h2) \<and>
           t = [DoesIconPackExist (normalizeIconPackName name'),
                CreateCustomIconPackDirectory (normalizeIconPackName name'),
                SetValue [],
                RefreshDisplay,
                Notice (''Icon pack '' @ name' @ '' ('' @ normalizeIconPackName name'
                          @ '') created.'')] \<and>
           count_list t RefreshDisplay = 1"
  using assms
  by (simp add: onAddIconPackClick_def pure_def andThen_def invoke_def emit_def Let_def)

theorem add_icon_pack_created_witness:
  "''My Pack'' \<noteq> [] \<and>
   doesIconPackExist memoryHost (normalizeIconPackName ''My Pack'') [] = (Some False, []) \<and>
   createCustomIconPackDirectory memoryHost (normalizeIconPackName ''My Pack'') []
     = (Some (), []) \<and>
   onAddIconPackClick memoryHost ''My Pack'' [] =
     (Some (),
      [DoesIconPackExist ''my-pack'', CreateCustomIconPackDirectory ''my-pack'', SetValue [],
       RefreshDisplay, Notice ''Icon pack My Pack (my-pack) created.''],
      [])"
proof -
  have n: "normalizeIconPackName ''My Pack'' = ''my-pack''"
    by code_simp
  have a: "''My Pack'' \<noteq> []"
    by simp
  have b: "doesIconPackExist memoryHost (normalizeIconPackName ''My Pack'') []
      = (Some False, [])"
    by (simp add: memoryHost_def)
  have c: "createCustomIconPackDirectory memoryHost (normalizeIconPackName ''My Pack'') []
      = (Some (), [])"
    by (simp add: memoryHost_def)
  from add_icon_pack_created [OF a b c] have
    "onAddIconPackClick memoryHost ''My Pack'' [] =
     (Some (),
      [DoesIconPackExist ''my-pack'', CreateCustomIconPackDirectory ''my-pack'', SetValue [],
       RefreshDisplay, Notice ''Icon pack My Pack (my-pack) created.''],
      [])"
    by (simp add: n)
  with a b c show ?thesis by (intro conjI)
qed

text \<open>
  C8. A click on the refresh button, where \<^verbatim>\<open>getFilesInIconPackDirectory\<close> returns
  the listing \<^verbatim>\<open>["/packs/foo/a.svg", "/packs/foo/b.svg"]\<close>: the handler runs to its
  end whenever no call of the host rejects. When it has run to its end, it has read the
  two files of the listing from the vault and registered with \<^verbatim>\<open>addIconToIconPack\<close>
  the icon names \<^verbatim>\<open>a.svg\<close> and \<^verbatim>\<open>b.svg\<close> of the pack, in this order and no other,
  each with the content that was read; the host is in the state in which these calls
  leave it; and the last thing the handler did was to set the description to
  \<^verbatim>\<open>2 icons\<close>.
\<close>

theorem refresh_registers_final_segments:
  assumes "getFilesInIconPackDirectory H pack h
             = (Some [''/packs/foo/a.svg'', ''/packs/foo/b.svg''], h1)"
  shows "(resolves H \<longrightarrow> completes (onRefreshClick H pack h)) \<and>
         (onRefreshClick H pack h = (Some (), t, h') \<longrightarrow>
            map packAndName (iconsAdded t) = [(pack, ''a.svg''), (pack, ''b.svg'')] \<and>
            descriptions t = [''Loading icons...'', ''2 icons''] \<and>
            last t = SetDesc ''2 icons'' \<and>
            notices t = [''Icon pack '' @ pack @ '' refreshed.''] \<and>
            pathsRead t = [''/packs/foo/a.svg'', ''/packs/foo/b.svg''] \<and>
            map contentOf (iconsAdded t) = contentsRead H t h \<and>
            h' = hostAfter H t h)"
proof -
  have 1: "resolves H \<longrightarrow> completes (onRefreshClick H pack h)"
    by (simp add: completes_onRefreshClick)
  have 2: "map packAndName (iconsAdded t) = [(pack, ''a.svg''), (pack, ''b.svg'')] \<and>
            descriptions t = [''Loading icons...'', ''2 icons''] \<and>
            last t = SetDesc ''2 icons'' \<and>
            notices t = [''Icon pack '' @ pack @ '' refreshed.''] \<and>
            pathsRead t = [''/packs/foo/a.svg'', ''/packs/foo/b.svg''] \<and>
            map contentOf (iconsAdded t) = contentsRead H t h \<and>
            h' = hostAfter H t h"
    if run: "onRefreshClick H pack h = (Some (), t, h')"
  proof -
    from run assms obtain t2 where
      r: "refreshFiles H pack [''/packs/foo/a.svg'', ''/packs/foo/b.svg''] h1
            = (Some (), t2, h')" and
      t: "t = [SetDesc ''Loading icons...'', GetFilesInIconPackDirectory pack] @ t2 @
              [Notice (''Icon pack '' @ pack @ '' refreshed.''),
               SetDesc (numberToString (length [''/packs/foo/a.svg'', ''/packs/foo/b.svg''])
                          @ '' icons'')]"
      unfolding onRefreshClick_def by (auto simp add: handler_Some)
    have "length [''/packs/foo/a.svg'', ''/packs/foo/b.svg''] = (2::nat)"
      by simp
    then have l: "numberToString (length [''/packs/foo/a.svg'', ''/packs/foo/b.svg'']) = ''2''"
      by (simp only: numberToString_2)
    have g: "hostStep H (GetFilesInIconPackDirectory pack) h = h1"
      using assms by simp
    from refreshFiles_effects [OF r] refreshFiles_host [OF r] g show ?thesis
      unfolding t l
      by (simp add: effects_simps pathsRead_simps iconNameOf_examples hostAfter_append
          contentsRead_append)
  qed
  from 1 2 show ?thesis by blast
qed

theorem refresh_registers_final_segments_witness:
  "getFilesInIconPackDirectory memoryHost ''foo'' [(''foo'', ''a.svg''), (''foo'', ''b.svg'')]
     = (Some [''/packs/foo/a.svg'', ''/packs/foo/b.svg''],
        [(''foo'', ''a.svg''), (''foo'', ''b.svg'')]) \<and>
   resolves memoryHost \<and>
   completes (onRefreshClick memoryHost ''foo'' [(''foo'', ''a.svg''), (''foo'', ''b.svg'')]) \<and>
   (\<exists>t. onRefreshClick memoryHost ''foo'' [(''foo'', ''a.svg''), (''foo'', ''b.svg'')]
          = (Some (), t,
             [(''foo'', ''a.svg''), (''foo'', ''b.svg''),
              (''foo'', ''a.svg''), (''foo'', ''b.svg'')]) \<and>
        iconsAdded t = [(''foo'', ''a.svg'', ''<svg/>''), (''foo'', ''b.svg'', ''<svg/>'')] \<and>
        contentsRead memoryHost t [(''foo'', ''a.svg''), (''foo'', ''b.svg'')]
          = [''<svg/>'', ''<svg/>''] \<and>
        hostAfter memoryHost t [(''foo'', ''a.svg''), (''foo'', ''b.svg'')]
          = [(''foo'', ''a.svg''), (''foo'', ''b.svg''),
             (''foo'', ''a.svg''), (''foo'', ''b.svg'')] \<and>
        last t = SetDesc ''2 icons'')"
proof -
  let ?h = "[(''foo'', ''a.svg''), (''foo'', ''b.svg'')]"
  let ?h' = "[(''foo'', ''a.svg''), (''foo'', ''b.svg''),
              (''foo'', ''a.svg''), (''foo'', ''b.svg'')]"
  let ?t = "[SetDesc ''Loading icons...'', GetFilesInIconPackDirectory ''foo'',
             AdapterRead ''/packs/foo/a.svg'', AddIconToIconPack ''foo'' ''a.svg'' ''<svg/>'',
             AdapterRead ''/packs/foo/b.svg'', AddIconToIconPack ''foo'' ''b.svg'' ''<svg/>'',
             Notice ''Icon pack foo refreshed.'', SetDesc ''2 icons'']"
  have a: "getFilesInIconPackDirectory memoryHost ''foo'' ?h
     = (Some [''/packs/foo/a.svg'', ''/packs/foo/b.svg''], ?h)"
    by (simp add: memoryHost_def)
  have run: "onRefreshClick memoryHost ''foo'' ?h = (Some (), ?t, ?h')"
    by code_simp
  note th = refresh_registers_final_segments [OF a]
  note c = th [THEN conjunct1, THEN mp, OF resolves_memoryHost]
  note all = th [of ?t ?h', THEN conjunct2, THEN mp, OF run]
  note d = all [THEN conjunct2, THEN conjunct2, THEN conjunct1]
  note r = all [THEN conjunct2, THEN conjunct2, THEN conjunct2, THEN conjunct2, THEN conjunct2,
      THEN conjunct1]
  note f = all [THEN conjunct2, THEN conjunct2, THEN conjunct2, THEN conjunct2, THEN conjunct2,
      THEN conjunct2]
  have i: "iconsAdded ?t = [(''foo'', ''a.svg'', ''<svg/>''), (''foo'', ''b.svg'', ''<svg/>'')]"
    by (simp add: iconsAdded_def)
  from r i have r': "contentsRead memoryHost ?t ?h = [''<svg/>'', ''<svg/>'']"
    by (simp add: contentOf_def)
  from run i r' f [symmetric] d have
    "\<exists>t. onRefreshClick memoryHost ''foo'' ?h = (Some (), t, ?h') \<and>
        iconsAdded t = [(''foo'', ''a.svg'', ''<svg/>''), (''foo'', ''b.svg'', ''<svg/>'')] \<and>
        contentsRead memoryHost t ?h = [''<svg/>'', ''<svg/>''] \<and>
        hostAfter memoryHost t ?h = ?h' \<and>
        last t = SetDesc ''2 icons''"
    by (intro exI [of _ ?t] conjI)
  with a resolves_memoryHost c show ?thesis by (intro conjI)
qed

text \<open>
  C9. The file picker: the handler runs to its end whenever no call of the host rejects.
  When it has run to its end, it has read every selected file, in the order of the
  selection, created a file for each and registered each, whatever the type of the file,
  with the content that was read; the host is in the state in which these calls leave
  it; and the only notice is the count of the files, so no file was rejected with the
  notice of the drop listener.
\<close>

theorem picker_registers_every_file:
  "(resolves H \<longrightarrow> completes (onFilesSelected H pack files h)) \<and>
   (onFilesSelected H pack files h = (Some (), t, h') \<longrightarrow>
      filesRead t = files \<and>
      filesCreated t = iconsAdded t \<and>
      map packAndName (iconsAdded t) = map (\<lambda>f. (pack, name f)) files \<and>
      notices t = [numberToString (length files) @ '' icons added.''] \<and>
      (\<forall>f. notSvgNotice f \<notin> set (notices t)) \<and>
      map contentOf (filesCreated t) = contentsRead H t h \<and>
      h' = hostAfter H t h)"
proof -
  have 1: "resolves H \<longrightarrow> completes (onFilesSelected H pack files h)"
    by (simp add: completes_onFilesSelected)
  have 2: "filesRead t = files \<and>
      filesCreated t = iconsAdded t \<and>
      map packAndName (iconsAdded t) = map (\<lambda>f. (pack, name f)) files \<and>
      notices t = [numberToString (length files) @ '' icons added.''] \<and>
      (\<forall>f. notSvgNotice f \<notin> set (notices t)) \<and>
      map contentOf (filesCreated t) = contentsRead H t h \<and>
      h' = hostAfter H t h"
    if run: "onFilesSelected H pack files h = (Some (), t, h')"
  proof -
    from run obtain t2 where
      r: "addSelectedFiles H pack files h = (Some (), t2, h')" and
      t: "t = t2 @ [SetDesc (numberToString (length files) @ '' icons''),
                    Notice (numberToString (length files) @ '' icons added.'')]"
      unfolding onFilesSelected_def by (auto simp add: handler_Some)
    from addSelectedFiles_effects [OF r] addSelectedFiles_host [OF r] show ?thesis
      unfolding t
      by (simp add: effects_simps notSvgNotice_not_count hostAfter_append contentsRead_append)
  qed
  from 1 2 show ?thesis by blast
qed

theorem picker_registers_every_file_witness:
  "resolves memoryHost \<and>
   completes (onFilesSelected memoryHost ''foo''
     [\<lparr>name = ''a.svg'', type = ''image/svg+xml''\<rparr>, \<lparr>name = ''b.txt'', type = ''text/plain''\<rparr>]
     []) \<and>
   (\<exists>t. onFilesSelected memoryHost ''foo''
       [\<lparr>name = ''a.svg'', type = ''image/svg+xml''\<rparr>, \<lparr>name = ''b.txt'', type = ''text/plain''\<rparr>]
       [] = (Some (), t, [(''foo'', ''a.svg''), (''foo'', ''b.txt'')]) \<and>
     iconsAdded t = [(''foo'', ''a.svg'', ''<svg id=a.svg/>''),
                     (''foo'', ''b.txt'', ''<svg id=b.txt/>'')] \<and>
     filesCreated t = iconsAdded t \<and>
     contentsRead memoryHost t [] = [''<svg id=a.svg/>'', ''<svg id=b.txt/>''] \<and>
     hostAfter memoryHost t [] = [(''foo'', ''a.svg''), (''foo'', ''b.txt'')] \<and>
     notSvgNotice \<lparr>name = ''b.txt'', type = ''text/plain''\<rparr> \<notin> set (notices t))"
proof -
  let ?fs = "[\<lparr>name = ''a.svg'', type = ''image/svg+xml''\<rparr>,
              \<lparr>name = ''b.txt'', type = ''text/plain''\<rparr>]"
  let ?h' = "[(''foo'', ''a.svg''), (''foo'', ''b.txt'')]"
  let ?t = "[ReadFileSync \<lparr>name = ''a.svg'', type = ''image/svg+xml''\<rparr>,
             CreateFile ''foo'' ''a.svg'' ''<svg id=a.svg/>'',
             AddIconToIconPack ''foo'' ''a.svg'' ''<svg id=a.svg/>'',
             ReadFileSync \<lparr>name = ''b.txt'', type = ''text/plain''\<rparr>,
             CreateFile ''foo'' ''b.txt'' ''<svg id=b.txt/>'',
             AddIconToIconPack ''foo'' ''b.txt'' ''<svg id=b.txt/>'',
             SetDesc ''2 icons'', Notice ''2 icons added.'']"
  have run: "onFilesSelected memoryHost ''foo'' ?fs [] = (Some (), ?t, ?h')"
    by code_simp
  note th = picker_registers_every_file [of memoryHost "''foo''" ?fs "[]"]
  note c = th [THEN conjunct1, THEN mp, OF resolves_memoryHost]
  note all = th [of ?t ?h', THEN conjunct2, THEN mp, OF run]
  note e = all [THEN conjunct2, THEN conjunct1]
  note n = all [THEN conjunct2, THEN conjunct2, THEN conjunct2, THEN conjunct2, THEN conjunct1,
      THEN spec, of "\<lparr>name = ''b.txt'', type = ''text/plain''\<rparr>"]
  note r = all [THEN conjunct2, THEN conjunct2, THEN conjunct2, THEN conjunct2, THEN conjunct2,
      THEN conjunct1]
  note f = all [THEN conjunct2, THEN conjunct2, THEN conjunct2, THEN conjunct2, THEN conjunct2,
      THEN conjunct2]
  have i: "iconsAdded ?t = [(''foo'', ''a.svg'', ''<svg id=a.svg/>''),
                            (''foo'', ''b.txt'', ''<svg id=b.txt/>'')]"
    by (simp add: iconsAdded_def)
  from r e i have r': "contentsRead memoryHost ?t [] = [''<svg id=a.svg/>'', ''<svg id=b.txt/>'']"
    by (simp add: contentOf_def)
  from run i e r' f [symmetric] n have
    "\<exists>t. onFilesSelected memoryHost ''foo'' ?fs [] = (Some (), t, ?h') \<and>
     iconsAdded t = [(''foo'', ''a.svg'', ''<svg id=a.svg/>''),
                     (''foo'', ''b.txt'', ''<svg id=b.txt/>'')] \<and>
     filesCreated t = iconsAdded t \<and>
     contentsRead memoryHost t [] = [''<svg id=a.svg/>'', ''<svg id=b.txt/>''] \<and>
     hostAfter memoryHost t [] = ?h' \<and>
     notSvgNotice \<lparr>name = ''b.txt'', type = ''text/plain''\<rparr> \<notin> set (notices t)"
    by (intro exI [of _ ?t] conjI)
  with resolves_memoryHost c show ?thesis by (intro conjI)
qed

text \<open>
  C10. A drop with an empty file list: the handler returns with no call made, no
  description set and no notice shown, and the state of the host is the one it found.
\<close>

theorem drop_of_no_file:
  "onDrop H pack [] h = (Some (), [], h)"
  by (simp add: onDrop_def andThen_def pure_def)




end
